theory Spec2Isabelle
  imports Main "HOL-Library.Word" "HOL-Library.Signed_Division"
begin

section \<open>The clock utility of schlemiel.cpp\<close>

text \<open>
  \<^verbatim>\<open>struct timespec { time_t tv_sec; long tv_nsec; }\<close>: on the LP64 platforms that offer
  \<^verbatim>\<open>clock_gettime(CLOCK_PROCESS_CPUTIME_ID, ...)\<close> both fields are signed 64-bit integers.
  They are modelled as 64-bit words: \<open>+\<close> and \<open>-\<close> wrap around, \<open>sint\<close> reads the
  two's-complement value, and a comparison of the source is a comparison of \<open>sint\<close> values.
\<close>

record timespec =
  tv_sec :: "64 word"
  tv_nsec :: "64 word"

text \<open>
  \<^verbatim>\<open>
  timespec diff(const timespec& start, const timespec& end)
  {
      timespec ret;
      if ((end.tv_nsec - start.tv_nsec) < 0)
      {
          ret.tv_sec = end.tv_sec-start.tv_sec-1;
          ret.tv_nsec = 1000000000+end.tv_nsec-start.tv_nsec;
      }
      else
      {
          ret.tv_sec = end.tv_sec-start.tv_sec;
          ret.tv_nsec = end.tv_nsec-start.tv_nsec;
      }
      return ret;
  }
  \<close>
\<close>

definition diff :: "timespec \<Rightarrow> timespec \<Rightarrow> timespec" where
  "diff start end' =
     (if sint (tv_nsec end' - tv_nsec start) < 0
      then \<lparr>tv_sec = tv_sec end' - tv_sec start - 1,
            tv_nsec = 1000000000 + tv_nsec end' - tv_nsec start\<rparr>
      else \<lparr>tv_sec = tv_sec end' - tv_sec start,
            tv_nsec = tv_nsec end' - tv_nsec start\<rparr>)"

text \<open>
  A reading of the per-process CPU-time clock: the processor time consumed so far, so a
  non-negative number of seconds, and a normalised nanosecond field.
\<close>

definition time_reading :: "timespec \<Rightarrow> bool" where
  "time_reading t \<longleftrightarrow>
     0 \<le> sint (tv_sec t) \<and> 0 \<le> sint (tv_nsec t) \<and> sint (tv_nsec t) < 1000000000"

text \<open>The order of two readings, as the claim spells it out.\<close>

definition later_than :: "timespec \<Rightarrow> timespec \<Rightarrow> bool" where
  "later_than end' start \<longleftrightarrow>
     sint (tv_sec start) < sint (tv_sec end') \<or>
     (tv_sec end' = tv_sec start \<and> sint (tv_nsec start) \<le> sint (tv_nsec end'))"


section \<open>The buffer and the C library's string append\<close>

text \<open>
  \<^verbatim>\<open>#define STRBUFLEN 1024\<close> and \<^verbatim>\<open>static char STRBUFFER[STRBUFLEN];\<close>
\<close>

definition STRBUFLEN :: nat where
  "STRBUFLEN = 1024"

definition NUL :: char where
  "NUL = CHR 0x00"

text \<open>
  The state of the process. Memory is addressed by the offset from \<^verbatim>\<open>STRBUFFER\<close>: offsets
  \<open>0 .. STRBUFLEN - 1\<close> are the array, larger offsets are whatever follows it in the data
  segment. A store at any offset lands in \<open>mem\<close>, as on the machine, and is recorded in
  \<open>writes\<close>, the list of all offsets stored to, oldest first; that list is what makes a
  store outside the array visible. \<open>clock\<close> is the sequence of readings the CPU-time clock
  will return and \<open>ticks\<close> the number of readings taken so far; \<open>stdout\<close> is the text
  written to standard output.
\<close>

record world =
  mem :: "nat \<Rightarrow> char"
  writes :: "nat list"
  clock :: "nat \<Rightarrow> timespec"
  ticks :: nat
  stdout :: string

definition store :: "nat \<Rightarrow> char \<Rightarrow> world \<Rightarrow> world" where
  "store p c s = s\<lparr>mem := (mem s)(p := c), writes := writes s @ [p]\<rparr>"

text \<open>The array itself: the \<open>STRBUFLEN\<close> bytes from offset 0.\<close>

definition buffer :: "world \<Rightarrow> string" where
  "buffer s = map (mem s) [0..<STRBUFLEN]"

text \<open>
  \<^verbatim>\<open>strncat(dest, src, n)\<close> of the C library (ISO C 7.24.3.2, and the reference
  implementation of the Linux manual page):
  \<^verbatim>\<open>
  size_t dest_len = strlen(dest);
  size_t i;
  for (i = 0 ; i < n && src[i] != '\0' ; i++)
      dest[dest_len + i] = src[i];
  dest[dest_len + i] = '\0';
  \<close>
  \<open>n\<close> bounds the number of characters taken from \<open>src\<close>; it is not the size of the
  destination, and the terminator is stored after the copied characters in every case.
  \<open>strlen\<close> scans until it finds a terminator; a scan that never finds one does not return,
  which is the value \<open>None\<close>.
\<close>

partial_function (option) strlen_loop :: "(nat \<Rightarrow> char) \<Rightarrow> nat \<Rightarrow> nat \<Rightarrow> nat option" where
  "strlen_loop m p len = (if m (p + len) = NUL then Some len else strlen_loop m p (Suc len))"

declare strlen_loop.simps [code]

definition strlen :: "(nat \<Rightarrow> char) \<Rightarrow> nat \<Rightarrow> nat option" where
  "strlen m p = strlen_loop m p 0"

text \<open>
  The copy loop, started at \<open>p = dest + dest_len\<close>: \<open>src\<close> is the text of the string
  literal (its characters before the terminator of the literal).
\<close>

fun strncat_copy :: "nat \<Rightarrow> string \<Rightarrow> nat \<Rightarrow> world \<Rightarrow> world" where
  "strncat_copy p [] n s = store p NUL s"
| "strncat_copy p (c # cs) n s =
     (if 0 < n \<and> c \<noteq> NUL then strncat_copy (Suc p) cs (n - 1) (store p c s)
      else store p NUL s)"

definition strncat :: "nat \<Rightarrow> string \<Rightarrow> nat \<Rightarrow> world \<Rightarrow> world option" where
  "strncat dest src n s =
     (case strlen (mem s) dest of
        None \<Rightarrow> None
      | Some dest_len \<Rightarrow> Some (strncat_copy (dest + dest_len) src n s))"


section \<open>The two benchmark functions\<close>

text \<open>
  \<^verbatim>\<open>
  void inefficientStringConcat()
  {
      for (int j = 0; j < 10000; j++)
      {
      STRBUFFER[0] = '\0';
      for (int i = 0; i < STRBUFLEN/8; i++)
      {
          strncat( STRBUFFER, "Jo", STRBUFLEN);
          strncat( STRBUFFER, "Pa", STRBUFLEN);
          strncat( STRBUFFER, "Ge", STRBUFLEN);
          strncat( STRBUFFER, "Ri", STRBUFLEN);
      }
      }
  }
  \<close>
  \<open>inefficient_body\<close> is the body of the inner loop, \<open>inefficient_inner\<close> the inner loop
  from counter \<open>i\<close>, \<open>inefficient_iteration\<close> one pass of the outer loop's body and
  \<open>inefficient_outer\<close> the outer loop from counter \<open>j\<close>.
\<close>

definition inefficient_body :: "world \<Rightarrow> world option" where
  "inefficient_body s =
     Option.bind (Option.bind (Option.bind (strncat 0 ''Jo'' STRBUFLEN s)
       (strncat 0 ''Pa'' STRBUFLEN)) (strncat 0 ''Ge'' STRBUFLEN)) (strncat 0 ''Ri'' STRBUFLEN)"

function inefficient_inner :: "nat \<Rightarrow> world \<Rightarrow> world option" where
  "inefficient_inner i s =
     (if i < STRBUFLEN div 8
      then (case inefficient_body s of None \<Rightarrow> None | Some s' \<Rightarrow> inefficient_inner (i + 1) s')
      else Some s)"
  by pat_completeness auto
termination
  by (relation "measure (\<lambda>(i, s). STRBUFLEN div 8 - i)") auto

definition inefficient_iteration :: "world \<Rightarrow> world option" where
  "inefficient_iteration s = inefficient_inner 0 (store 0 NUL s)"

function inefficient_outer :: "nat \<Rightarrow> world \<Rightarrow> world option" where
  "inefficient_outer j s =
     (if j < 10000
      then (case inefficient_iteration s of None \<Rightarrow> None | Some s' \<Rightarrow> inefficient_outer (j + 1) s')
      else Some s)"
  by pat_completeness auto
termination
  by (relation "measure (\<lambda>(j, s). 10000 - j)") auto

definition inefficientStringConcat :: "world \<Rightarrow> world option" where
  "inefficientStringConcat s = inefficient_outer 0 s"

text \<open>
  \<^verbatim>\<open>
  void efficientStringConcat()
  {
      for (int j = 0; j < 10000; j++)
      {
      STRBUFFER[0] = '\0';
      for (int i = 0; i < STRBUFLEN; i=i+8)
      {
          strncat( STRBUFFER+i, "Jo", STRBUFLEN-i);
          strncat( STRBUFFER+i+2, "Pa", STRBUFLEN-i);
          strncat( STRBUFFER+i+4, "Ge", STRBUFLEN-i);
          strncat( STRBUFFER+i+6, "Ri", STRBUFLEN-i);
      }
      }
  }
  \<close>
\<close>

definition efficient_body :: "nat \<Rightarrow> world \<Rightarrow> world option" where
  "efficient_body i s =
     Option.bind (Option.bind (Option.bind (strncat i ''Jo'' (STRBUFLEN - i) s)
       (strncat (i + 2) ''Pa'' (STRBUFLEN - i))) (strncat (i + 4) ''Ge'' (STRBUFLEN - i)))
       (strncat (i + 6) ''Ri'' (STRBUFLEN - i))"

function efficient_inner :: "nat \<Rightarrow> world \<Rightarrow> world option" where
  "efficient_inner i s =
     (if i < STRBUFLEN
      then (case efficient_body i s of None \<Rightarrow> None | Some s' \<Rightarrow> efficient_inner (i + 8) s')
      else Some s)"
  by pat_completeness auto
termination
  by (relation "measure (\<lambda>(i, s). STRBUFLEN - i)") auto

definition efficient_iteration :: "world \<Rightarrow> world option" where
  "efficient_iteration s = efficient_inner 0 (store 0 NUL s)"

function efficient_outer :: "nat \<Rightarrow> world \<Rightarrow> world option" where
  "efficient_outer j s =
     (if j < 10000
      then (case efficient_iteration s of None \<Rightarrow> None | Some s' \<Rightarrow> efficient_outer (j + 1) s')
      else Some s)"
  by pat_completeness auto
termination
  by (relation "measure (\<lambda>(j, s). 10000 - j)") auto

definition efficientStringConcat :: "world \<Rightarrow> world option" where
  "efficientStringConcat s = efficient_outer 0 s"

declare inefficient_inner.simps [simp del] efficient_inner.simps [simp del]
declare inefficient_outer.simps [simp del] efficient_outer.simps [simp del]

text \<open>
  The states at the head of the efficient inner loop, within the outer iteration entered in
  state \<open>s0\<close>: the loop is entered with offset 0 right after \<^verbatim>\<open>STRBUFFER[0] = '\0'\<close>, and a
  pass of the body at an offset below \<open>STRBUFLEN\<close> leads to the head at the offset plus 8.
\<close>

inductive efficient_head :: "world \<Rightarrow> nat \<Rightarrow> world \<Rightarrow> bool" for s0 :: world where
  enter: "efficient_head s0 0 (store 0 NUL s0)"
| pass: "\<lbrakk>efficient_head s0 i s; i < STRBUFLEN; efficient_body i s = Some s'\<rbrakk>
         \<Longrightarrow> efficient_head s0 (i + 8) s'"

section \<open>Timing, output and the runner\<close>

text \<open>
  \<^verbatim>\<open>
  timespec getTime()
  {
      timespec time;
      clock_gettime(CLOCK_PROCESS_CPUTIME_ID, &time);
      return time;
  }
  \<close>
  The result of \<^verbatim>\<open>clock_gettime\<close> is not checked; the model's clock always yields its
  next reading.
\<close>

definition getTime :: "world \<Rightarrow> timespec \<times> world" where
  "getTime w = (clock w (ticks w), w\<lparr>ticks := Suc (ticks w)\<rparr>)"

text \<open>
  \<^verbatim>\<open>
  timespec timeOperation(timespec& start, timespec& end, void (*function)())
  {
      start = getTime();
      function();
      end = getTime();
      return diff(start, end);
  }
  \<close>
  The reference parameters \<open>start\<close> and \<open>end\<close> are only written, so the model returns their
  new values together with the result.
\<close>

definition timeOperation ::
  "(world \<Rightarrow> world option) \<Rightarrow> world \<Rightarrow> (timespec \<times> timespec \<times> timespec \<times> world) option" where
  "timeOperation function w =
     (case getTime w of (start, w) \<Rightarrow>
        (case function w of
           None \<Rightarrow> None
         | Some w \<Rightarrow>
             (case getTime w of (end', w) \<Rightarrow> Some (start, end', diff start end', w))))"

text \<open>
  The stream's output of a \<^verbatim>\<open>long\<close> in its default format: decimal digits, a minus sign
  for a negative value, no padding and no grouping.
\<close>

definition digit :: "nat \<Rightarrow> char" where
  "digit d = ''0123456789'' ! d"

function show_nat :: "nat \<Rightarrow> string" where
  "show_nat n = (if n < 10 then [digit n] else show_nat (n div 10) @ [digit (n mod 10)])"
  by pat_completeness auto
termination
  by (relation "measure (\<lambda>n. n)") auto

declare show_nat.simps [simp del]

definition show_int :: "int \<Rightarrow> string" where
  "show_int k = (if k < 0 then CHR ''-'' # show_nat (nat (- k)) else show_nat (nat k))"

definition show_long :: "64 word \<Rightarrow> string" where
  "show_long x = show_int (sint x)"

text \<open>Division of two \<^verbatim>\<open>long\<close> values: the quotient is truncated towards zero.\<close>

definition c_div :: "64 word \<Rightarrow> 64 word \<Rightarrow> 64 word" where
  "c_div a b = word_of_int (sint a sdiv sint b)"

text \<open>
  \<^verbatim>\<open>
  std::ostream& operator<<(std::ostream& os, const timespec& timeSpec)
  {
      long timeSpecMS = timeSpec.tv_nsec/1000000;
      os << timeSpec.tv_sec << "s " << timeSpecMS  << "ms "
           << timeSpec.tv_nsec - timeSpecMS*1000000 << "ns";
      return os;
  }
  \<close>
  \<open>operator_lshift\<close> is that operator on \<^verbatim>\<open>cout\<close>; \<open>endl\<close> writes the newline.
\<close>

definition operator_lshift :: "timespec \<Rightarrow> world \<Rightarrow> world" where
  "operator_lshift timeSpec w =
     (let timeSpecMS = c_div (tv_nsec timeSpec) 1000000
      in w\<lparr>stdout := stdout w @ show_long (tv_sec timeSpec) @ ''s '' @ show_long timeSpecMS @ ''ms ''
             @ show_long (tv_nsec timeSpec - timeSpecMS * 1000000) @ ''ns''\<rparr>)"

definition endl :: "world \<Rightarrow> world" where
  "endl w = w\<lparr>stdout := stdout w @ [CHR 0x0A]\<rparr>"

text \<open>
  Modelled from the spec: the statement inside the block under \<^verbatim>\<open>if (argc > 1)\<close> of
  \<^verbatim>\<open>main\<close>. It is missing from the source: lines 85 to 88 of schlemiel.cpp hold only the
  unfinished fragment \<^verbatim>\<open>if (argc\<close>, which is no statement of the language, so the code does
  not say what the block does (and the file, as it is, does not compile). The specification
  does. Section 4.4: "A command-line argument for a trial count is declared but not
  functionally wired (no-op in current form)." Section 6: the program "accepts an optional
  first argument (intended as a trial count) but does not use it", "the argument-check branch
  is syntactically incomplete in the source and effectively inert". So the block is the
  statement that uses neither \<open>argc\<close> nor \<open>argv\<close> and changes neither \<open>trials\<close> nor the
  state of the process.
\<close>

definition argument_check :: "int \<Rightarrow> string list \<Rightarrow> int \<Rightarrow> world \<Rightarrow> int \<times> world" where
  "argument_check argc argv trials w = (trials, w)"

text \<open>
  \<^verbatim>\<open>
  int main(int argc, char** argv)
  {
      int trials = 1;
      if (argc > 1)
      {
          if (argc 
      }

      timespec end;
      timespec start;
      timespec timeSpent = timeOperation(start, end, inefficientStringConcat);
      cout << timeSpent << endl;

      timeSpent = timeOperation(start, end, efficientStringConcat);
      cout << timeSpent << endl;

      return 0;
  }
  \<close>
  Everything outside the block under \<^verbatim>\<open>if (argc > 1)\<close> is translated from these lines.
  The block itself is \<open>argument_check\<close> above, the one part of \<open>main\<close> that is modelled
  from the specification: the model keeps the test of the source and enters the block with
  \<open>argc\<close>, \<open>argv\<close>, \<open>trials\<close> and the state. \<open>argv\<close> and \<open>trials\<close> are not mentioned
  anywhere else in the source. The result is the exit code and the final state.
\<close>

definition main :: "int \<Rightarrow> string list \<Rightarrow> world \<Rightarrow> (int \<times> world) option" where
  "main argc argv w =
     (let trials = (1 :: int);
          (trials, w) = (if 1 < argc then argument_check argc argv trials w else (trials, w))
      in case timeOperation inefficientStringConcat w of
           None \<Rightarrow> None
         | Some (start, end', timeSpent, w) \<Rightarrow>
             (let w = endl (operator_lshift timeSpent w)
              in case timeOperation efficientStringConcat w of
                   None \<Rightarrow> None
                 | Some (start, end', timeSpent, w) \<Rightarrow>
                     (let w = endl (operator_lshift timeSpent w) in Some (0, w))))"

text \<open>
  The line format in the specification's words, on the values of the fields:
  \<^verbatim>\<open><seconds>s <milliseconds>ms <remainder-nanoseconds>ns\<close> with milliseconds
  \<open>= tv_nsec / 1,000,000\<close> and remainder \<open>= tv_nsec - milliseconds * 1,000,000\<close>.
\<close>

definition duration_line :: "timespec \<Rightarrow> string" where
  "duration_line d =
     (let milliseconds = sint (tv_nsec d) sdiv 1000000;
          remainder = sint (tv_nsec d) - milliseconds * 1000000
      in show_int (sint (tv_sec d)) @ ''s '' @ show_int milliseconds @ ''ms ''
         @ show_int remainder @ ''ns'')"


text \<open>
  A process at start-up: static storage is zero-initialised, nothing has been stored or
  printed, and the clock has not been read.
\<close>

definition boot :: world where
  "boot = \<lparr>mem = (\<lambda>_. NUL), writes = [], clock = (\<lambda>_. \<lparr>tv_sec = 0, tv_nsec = 0\<rparr>),
           ticks = 0, stdout = []\<rparr>"


section \<open>Closed forms used in the proofs\<close>

text \<open>
  \<open>pat k\<close> is the character of the repeated text at offset \<open>k\<close>; \<open>painted k m\<close> is the
  memory \<open>m\<close> with the first \<open>k\<close> characters of the repeated text at offsets below \<open>k\<close> and
  the terminator at offset \<open>k\<close>.
\<close>

definition pat :: "nat \<Rightarrow> char" where
  "pat k = ''JoPaGeRi'' ! (k mod 8)"

definition painted :: "nat \<Rightarrow> (nat \<Rightarrow> char) \<Rightarrow> nat \<Rightarrow> char" where
  "painted k m = (\<lambda>j. if j < k then pat j else if j = k then NUL else m j)"

text \<open>The state after a two-character token has been appended at offset \<open>k\<close>.\<close>

definition appended :: "nat \<Rightarrow> (nat \<Rightarrow> char) \<Rightarrow> world \<Rightarrow> world" where
  "appended k m s = s\<lparr>mem := painted (k + 2) m, writes := writes s @ [k, k + 1, k + 2]\<rparr>"

text \<open>
  The offsets stored to by one pass of an inner loop's body that starts at offset \<open>p\<close>, by
  the rest of an inner loop from its pass number \<open>i\<close>, and by one outer iteration.
\<close>

definition body_writes :: "nat \<Rightarrow> nat list" where
  "body_writes p = [p, p + 1, p + 2, p + 2, p + 3, p + 4, p + 4, p + 5, p + 6, p + 6, p + 7, p + 8]"

definition inner_writes :: "nat \<Rightarrow> nat list" where
  "inner_writes i = concat (map (\<lambda>q. body_writes (8 * q)) [i..<STRBUFLEN div 8])"

definition iteration_writes :: "nat list" where
  "iteration_writes = 0 # inner_writes 0"

text \<open>The state after \<open>n\<close> outer iterations.\<close>

definition after_iterations :: "nat \<Rightarrow> world \<Rightarrow> world" where
  "after_iterations n s =
     (if n = 0 then s
      else s\<lparr>mem := painted STRBUFLEN (mem s),
             writes := writes s @ concat (replicate n iteration_writes)\<rparr>)"


section \<open>Properties of the clock utility\<close>

lemma sint_sub_small:
  fixes a b :: "64 word"
  assumes "- (2 ^ 63) \<le> sint a - sint b" "sint a - sint b < 2 ^ 63"
  shows "sint (a - b) = sint a - sint b"
  using assms by (simp add: sint_word_ariths signed_take_bit_int_eq_self)

lemma sint_add_small:
  fixes a b :: "64 word"
  assumes "- (2 ^ 63) \<le> sint a + sint b" "sint a + sint b < 2 ^ 63"
  shows "sint (a + b) = sint a + sint b"
  using assms by (simp add: sint_word_ariths signed_take_bit_int_eq_self)

text \<open>
  The bounds hold whenever the difference of the seconds fields is representable; the
  subtraction of the source wraps (and is undefined in C) beyond that, for example for
  \<open>start = (-1, 0)\<close> and \<open>end = (2^63 - 1, 0)\<close>, which no CPU-time clock returns.
\<close>

lemma diff_bounds_representable:
  assumes ns: "0 \<le> sint (tv_nsec s)" "sint (tv_nsec s) < 1000000000"
      and ne: "0 \<le> sint (tv_nsec e)" "sint (tv_nsec e) < 1000000000"
      and later: "later_than e s"
      and rep: "sint (tv_sec e) - sint (tv_sec s) < 2 ^ 63"
  shows "0 \<le> sint (tv_nsec (diff s e)) \<and> sint (tv_nsec (diff s e)) \<le> 999999999 \<and>
         0 \<le> sint (tv_sec (diff s e))"
proof -
  have dn: "sint (tv_nsec e - tv_nsec s) = sint (tv_nsec e) - sint (tv_nsec s)"
    using ns ne by (intro sint_sub_small) simp_all
  have ds: "0 \<le> sint (tv_sec e) - sint (tv_sec s)"
    using later by (auto simp: later_than_def)
  have dsec: "sint (tv_sec e - tv_sec s) = sint (tv_sec e) - sint (tv_sec s)"
    using ds rep by (intro sint_sub_small) simp_all
  show ?thesis
  proof (cases "sint (tv_nsec e - tv_nsec s) < 0")
    case True
    then have lt: "sint (tv_sec s) < sint (tv_sec e)"
      using later dn by (auto simp: later_than_def)
    have eq: "1000000000 + tv_nsec e - tv_nsec s = (tv_nsec e - tv_nsec s) + 1000000000"
      by simp
    have "sint ((tv_nsec e - tv_nsec s) + 1000000000)
          = sint (tv_nsec e - tv_nsec s) + sint (1000000000 :: 64 word)"
      using ns ne dn by (intro sint_add_small) simp_all
    then have n: "sint (1000000000 + tv_nsec e - tv_nsec s)
                  = sint (tv_nsec e) - sint (tv_nsec s) + 1000000000"
      unfolding eq dn by simp
    have "sint (tv_sec e - tv_sec s - 1) = sint (tv_sec e - tv_sec s) - sint (1 :: 64 word)"
      using dsec lt rep by (intro sint_sub_small) simp_all
    then have s1: "sint (tv_sec e - tv_sec s - 1) = sint (tv_sec e) - sint (tv_sec s) - 1"
      using dsec by simp
    show ?thesis using True n s1 lt ns ne dn by (simp add: diff_def)
  next
    case False
    then show ?thesis using dn dsec ds ns ne by (simp add: diff_def)
  qed
qed

text \<open>
  Claim C4. \<open>diff\<close> implements the borrow rule: when the raw nanosecond difference
  \<open>end.tv_nsec - start.tv_nsec\<close> is negative it subtracts one extra second and adds
  1,000,000,000 to the nanosecond difference, otherwise it subtracts componentwise; and
  \<open>diff (10, 900000000) (11, 100000000) = (0, 200000000)\<close>,
  \<open>diff (5, 100) (5, 200) = (0, 100)\<close>.
\<close>

theorem diff_borrow_rule:
  "diff start end' =
     (if sint (tv_nsec end' - tv_nsec start) < 0
      then \<lparr>tv_sec = (tv_sec end' - tv_sec start) - 1,
            tv_nsec = (tv_nsec end' - tv_nsec start) + 1000000000\<rparr>
      else \<lparr>tv_sec = tv_sec end' - tv_sec start,
            tv_nsec = tv_nsec end' - tv_nsec start\<rparr>)
   \<and> diff \<lparr>tv_sec = 10, tv_nsec = 900000000\<rparr> \<lparr>tv_sec = 11, tv_nsec = 100000000\<rparr>
       = \<lparr>tv_sec = 0, tv_nsec = 200000000\<rparr>
   \<and> diff \<lparr>tv_sec = 5, tv_nsec = 100\<rparr> \<lparr>tv_sec = 5, tv_nsec = 200\<rparr>
       = \<lparr>tv_sec = 0, tv_nsec = 100\<rparr>"
  by (simp add: diff_def)

text \<open>
  Claim C5. For every pair of time readings \<open>start\<close> and \<open>end\<close> (readings of the CPU-time
  clock: seconds non-negative, nanoseconds in [0, 1,000,000,000)) where \<open>end\<close> is later than
  \<open>start\<close> (\<open>end.tv_sec > start.tv_sec\<close>, or \<open>end.tv_sec = start.tv_sec\<close> and
  \<open>end.tv_nsec \<ge> start.tv_nsec\<close>), \<open>diff start end\<close> has its nanosecond field in
  [0, 999,999,999] and a non-negative seconds field.
\<close>

theorem diff_later_normalised:
  assumes "time_reading start" and "time_reading end'" and "later_than end' start"
  shows "0 \<le> sint (tv_nsec (diff start end')) \<and>
         sint (tv_nsec (diff start end')) \<le> 999999999 \<and>
         0 \<le> sint (tv_sec (diff start end'))"
proof -
  have "sint (tv_sec end') < 2 ^ 63"
    using sint_lt [of "tv_sec end'"] by simp
  then have "sint (tv_sec end') - sint (tv_sec start) < 2 ^ 63"
    using assms(1) by (simp add: time_reading_def)
  then show ?thesis
    using assms by (intro diff_bounds_representable) (simp_all add: time_reading_def)
qed

theorem diff_later_normalised_witness:
  "time_reading \<lparr>tv_sec = 10, tv_nsec = 900000000\<rparr> \<and>
   time_reading \<lparr>tv_sec = 11, tv_nsec = 100000000\<rparr> \<and>
   later_than \<lparr>tv_sec = 11, tv_nsec = 100000000\<rparr> \<lparr>tv_sec = 10, tv_nsec = 900000000\<rparr> \<and>
   0 \<le> sint (tv_nsec (diff \<lparr>tv_sec = 10, tv_nsec = 900000000\<rparr>
                            \<lparr>tv_sec = 11, tv_nsec = 100000000\<rparr>)) \<and>
   sint (tv_nsec (diff \<lparr>tv_sec = 10, tv_nsec = 900000000\<rparr>
                       \<lparr>tv_sec = 11, tv_nsec = 100000000\<rparr>)) \<le> 999999999 \<and>
   0 \<le> sint (tv_sec (diff \<lparr>tv_sec = 10, tv_nsec = 900000000\<rparr>
                           \<lparr>tv_sec = 11, tv_nsec = 100000000\<rparr>))"
proof -
  have a: "time_reading \<lparr>tv_sec = 10, tv_nsec = 900000000\<rparr>"
    by (simp add: time_reading_def)
  have b: "time_reading \<lparr>tv_sec = 11, tv_nsec = 100000000\<rparr>"
    by (simp add: time_reading_def)
  have c: "later_than \<lparr>tv_sec = 11, tv_nsec = 100000000\<rparr> \<lparr>tv_sec = 10, tv_nsec = 900000000\<rparr>"
    by (simp add: later_than_def)
  show ?thesis
    using a b c diff_later_normalised [OF a b c] by simp
qed


section \<open>Properties of the benchmark functions\<close>

lemma pat_not_NUL: "pat j \<noteq> NUL"
proof -
  have "pat j \<in> set ''JoPaGeRi''"
    unfolding pat_def by (rule nth_mem) simp
  then show ?thesis by (auto simp: NUL_def)
qed

lemma strlen_loop_found:
  "\<lbrakk>\<forall>i. len \<le> i \<and> i < k \<longrightarrow> m (p + i) \<noteq> NUL; m (p + k) = NUL; len \<le> k\<rbrakk>
   \<Longrightarrow> strlen_loop m p len = Some k"
proof (induction "k - len" arbitrary: len)
  case 0
  then show ?case by (simp add: strlen_loop.simps)
next
  case (Suc d)
  then have "m (p + len) \<noteq> NUL" "strlen_loop m p (Suc len) = Some k"
    by auto
  then show ?case by (subst strlen_loop.simps) simp
qed

lemma strlen_painted_start: "strlen (painted k m) 0 = Some k"
  unfolding strlen_def
  by (rule strlen_loop_found) (simp_all add: painted_def pat_not_NUL)

lemma strlen_painted_end: "strlen (painted k m) k = Some 0"
  unfolding strlen_def
  by (subst strlen_loop.simps) (simp add: painted_def)

lemma painted_step:
  "(painted k m)(k := pat k, Suc k := pat (Suc k), Suc (Suc k) := NUL) = painted (k + 2) m"
  by (rule ext) (auto simp: painted_def less_Suc_eq)

lemma strncat_copy_token:
  "\<lbrakk>2 \<le> n; a \<noteq> NUL; b \<noteq> NUL\<rbrakk>
   \<Longrightarrow> strncat_copy p [a, b] n s = store (Suc (Suc p)) NUL (store (Suc p) b (store p a s))"
  by simp

lemma paint_token:
  assumes "mem s = painted k m" "2 \<le> n"
  shows "strncat_copy k [pat k, pat (k + 1)] n s
         = s\<lparr>mem := painted (k + 2) m, writes := writes s @ [k, k + 1, k + 2]\<rparr>"
  using assms painted_step [of k m]
  by (simp add: strncat_copy_token pat_not_NUL store_def eval_nat_numeral)

lemma strncat_start:
  assumes "mem s = painted k m" "2 \<le> n"
  shows "strncat 0 [pat k, pat (k + 1)] n s
         = Some (s\<lparr>mem := painted (k + 2) m, writes := writes s @ [k, k + 1, k + 2]\<rparr>)"
proof -
  have "strlen (mem s) 0 = Some k"
    by (simp only: assms(1) strlen_painted_start)
  then show ?thesis
    unfolding strncat_def by (simp only: option.case paint_token [OF assms] add_0)
qed

lemma strncat_end:
  assumes "mem s = painted k m" "2 \<le> n"
  shows "strncat k [pat k, pat (k + 1)] n s
         = Some (s\<lparr>mem := painted (k + 2) m, writes := writes s @ [k, k + 1, k + 2]\<rparr>)"
proof -
  have "strlen (mem s) k = Some 0"
    by (simp only: assms(1) strlen_painted_end)
  then show ?thesis
    unfolding strncat_def by (simp only: option.case paint_token [OF assms] add_0_right)
qed

lemma pat_offset: "k mod 8 = 0 \<Longrightarrow> pat (k + r) = ''JoPaGeRi'' ! (r mod 8)"
proof -
  assume "k mod 8 = 0"
  then have "(k + r) mod 8 = r mod 8" by presburger
  then show ?thesis by (simp add: pat_def)
qed

lemma tokens:
  assumes "k mod 8 = 0"
  shows "''Jo'' = [pat k, pat (k + 1)]"
    and "''Pa'' = [pat (k + 2), pat (k + 2 + 1)]"
    and "''Ge'' = [pat (k + 4), pat (k + 4 + 1)]"
    and "''Ri'' = [pat (k + 6), pat (k + 6 + 1)]"
proof -
  have 0: "pat k = CHR ''J''"
    using pat_offset [OF assms, of 0] by simp
  show "''Jo'' = [pat k, pat (k + 1)]"
    unfolding 0 by (simp only: pat_offset [OF assms]) simp
  show "''Pa'' = [pat (k + 2), pat (k + 2 + 1)]"
    by (simp only: add.assoc pat_offset [OF assms]) simp
  show "''Ge'' = [pat (k + 4), pat (k + 4 + 1)]"
    by (simp only: add.assoc pat_offset [OF assms]) simp
  show "''Ri'' = [pat (k + 6), pat (k + 6 + 1)]"
    by (simp only: add.assoc pat_offset [OF assms]) simp
qed

lemma mem_appended: "mem (appended k m s) = painted (k + 2) m"
  by (simp add: appended_def)

lemma appended_four:
  "appended (k + 6) m (appended (k + 4) m (appended (k + 2) m (appended k m s)))
   = s\<lparr>mem := painted (k + 8) m, writes := writes s @ body_writes k\<rparr>"
  by (simp add: appended_def body_writes_def eval_nat_numeral)

lemma inefficient_body_painted:
  assumes "mem s = painted k m" "k mod 8 = 0"
  shows "inefficient_body s
         = Some (s\<lparr>mem := painted (k + 8) m, writes := writes s @ body_writes k\<rparr>)"
proof -
  have n: "2 \<le> STRBUFLEN" by (simp add: STRBUFLEN_def)
  have 1: "strncat 0 ''Jo'' STRBUFLEN s = Some (appended k m s)"
    unfolding tokens(1) [OF assms(2)] appended_def using assms(1) n by (rule strncat_start)
  have 2: "strncat 0 ''Pa'' STRBUFLEN (appended k m s) = Some (appended (k + 2) m (appended k m s))"
    unfolding tokens(2) [OF assms(2)] appended_def [of "k + 2"]
    using mem_appended n by (rule strncat_start)
  have 3: "strncat 0 ''Ge'' STRBUFLEN (appended (k + 2) m (appended k m s))
           = Some (appended (k + 4) m (appended (k + 2) m (appended k m s)))"
    unfolding tokens(3) [OF assms(2)] appended_def [of "k + 4"]
    by (rule strncat_start) (simp_all only: n mem_appended add.assoc, simp_all)
  have 4: "strncat 0 ''Ri'' STRBUFLEN (appended (k + 4) m (appended (k + 2) m (appended k m s)))
           = Some (appended (k + 6) m (appended (k + 4) m (appended (k + 2) m (appended k m s))))"
    unfolding tokens(4) [OF assms(2)] appended_def [of "k + 6"]
    by (rule strncat_start) (simp_all only: n mem_appended add.assoc, simp_all)
  show ?thesis
    unfolding inefficient_body_def by (simp only: 1 2 3 4 Option.bind.simps appended_four)
qed

lemma efficient_appends:
  assumes "mem s = painted k m" "k mod 8 = 0" "k < STRBUFLEN"
  shows "strncat k ''Jo'' (STRBUFLEN - k) s = Some (appended k m s)"
    and "strncat (k + 2) ''Pa'' (STRBUFLEN - k) (appended k m s)
         = Some (appended (k + 2) m (appended k m s))"
    and "strncat (k + 4) ''Ge'' (STRBUFLEN - k) (appended (k + 2) m (appended k m s))
         = Some (appended (k + 4) m (appended (k + 2) m (appended k m s)))"
    and "strncat (k + 6) ''Ri'' (STRBUFLEN - k) (appended (k + 4) m (appended (k + 2) m (appended k m s)))
         = Some (appended (k + 6) m (appended (k + 4) m (appended (k + 2) m (appended k m s))))"
proof -
  have n: "2 \<le> STRBUFLEN - k"
    using assms(2,3) unfolding STRBUFLEN_def by presburger
  show "strncat k ''Jo'' (STRBUFLEN - k) s = Some (appended k m s)"
    unfolding tokens(1) [OF assms(2)] appended_def using assms(1) n by (rule strncat_end)
  show "strncat (k + 2) ''Pa'' (STRBUFLEN - k) (appended k m s)
        = Some (appended (k + 2) m (appended k m s))"
    unfolding tokens(2) [OF assms(2)] appended_def [of "k + 2"]
    using mem_appended n by (rule strncat_end)
  show "strncat (k + 4) ''Ge'' (STRBUFLEN - k) (appended (k + 2) m (appended k m s))
        = Some (appended (k + 4) m (appended (k + 2) m (appended k m s)))"
    unfolding tokens(3) [OF assms(2)] appended_def [of "k + 4"]
    by (rule strncat_end) (simp_all only: n mem_appended add.assoc, simp_all)
  show "strncat (k + 6) ''Ri'' (STRBUFLEN - k) (appended (k + 4) m (appended (k + 2) m (appended k m s)))
        = Some (appended (k + 6) m (appended (k + 4) m (appended (k + 2) m (appended k m s))))"
    unfolding tokens(4) [OF assms(2)] appended_def [of "k + 6"]
    by (rule strncat_end) (simp_all only: n mem_appended add.assoc, simp_all)
qed

lemma efficient_body_painted:
  assumes "mem s = painted k m" "k mod 8 = 0" "k < STRBUFLEN"
  shows "efficient_body k s
         = Some (s\<lparr>mem := painted (k + 8) m, writes := writes s @ body_writes k\<rparr>)"
  unfolding efficient_body_def
  by (simp only: efficient_appends [OF assms] Option.bind.simps appended_four)

lemma STRBUFLEN_8: "8 * (STRBUFLEN div 8) = STRBUFLEN"
  by (simp add: STRBUFLEN_def)

lemma inner_writes_step: "i < STRBUFLEN div 8 \<Longrightarrow> inner_writes i = body_writes (8 * i) @ inner_writes (i + 1)"
  by (simp add: inner_writes_def upt_conv_Cons)

lemma inner_writes_done: "\<not> i < STRBUFLEN div 8 \<Longrightarrow> inner_writes i = []"
  by (simp add: inner_writes_def)

lemma inefficient_inner_painted:
  "\<lbrakk>i \<le> STRBUFLEN div 8; mem s = painted (8 * i) m\<rbrakk>
   \<Longrightarrow> inefficient_inner i s
       = Some (s\<lparr>mem := painted STRBUFLEN m, writes := writes s @ inner_writes i\<rparr>)"
proof (induction i s rule: inefficient_inner.induct)
  case (1 i s)
  show ?case
  proof (cases "i < STRBUFLEN div 8")
    case True
    let ?s' = "s\<lparr>mem := painted (8 * i + 8) m, writes := writes s @ body_writes (8 * i)\<rparr>"
    have b: "inefficient_body s = Some ?s'"
      using "1.prems"(2) by (rule inefficient_body_painted) simp
    have "inefficient_inner (i + 1) ?s'
          = Some (?s'\<lparr>mem := painted STRBUFLEN m, writes := writes ?s' @ inner_writes (i + 1)\<rparr>)"
      using True b by (rule "1.IH") (use True in \<open>simp_all add: add.commute\<close>)
    then show ?thesis
      by (subst inefficient_inner.simps) (simp add: True b inner_writes_step)
  next
    case False
    with "1.prems" have "i = STRBUFLEN div 8" by simp
    then have "mem s = painted STRBUFLEN m"
      using "1.prems"(2) by (simp only: STRBUFLEN_8)
    then have "s\<lparr>mem := painted STRBUFLEN m, writes := writes s @ inner_writes i\<rparr> = s"
      using False by (simp add: inner_writes_done)
    then show ?thesis
      by (subst inefficient_inner.simps) (simp add: False)
  qed
qed

lemma efficient_inner_painted:
  "\<lbrakk>i mod 8 = 0; i \<le> STRBUFLEN; mem s = painted i m\<rbrakk>
   \<Longrightarrow> efficient_inner i s
       = Some (s\<lparr>mem := painted STRBUFLEN m, writes := writes s @ inner_writes (i div 8)\<rparr>)"
proof (induction i s rule: efficient_inner.induct)
  case (1 i s)
  have i8: "8 * (i div 8) = i"
    using "1.prems"(1) by presburger
  show ?case
  proof (cases "i < STRBUFLEN")
    case True
    let ?s' = "s\<lparr>mem := painted (i + 8) m, writes := writes s @ body_writes i\<rparr>"
    have b: "efficient_body i s = Some ?s'"
      using "1.prems"(3,1) True by (rule efficient_body_painted)
    have le: "i + 8 \<le> STRBUFLEN"
      using True "1.prems"(1) unfolding STRBUFLEN_def by presburger
    have lt: "i div 8 < STRBUFLEN div 8"
      using True "1.prems"(1) unfolding STRBUFLEN_def by presburger
    have d: "(i + 8) div 8 = i div 8 + 1"
      by simp
    have "efficient_inner (i + 8) ?s'
          = Some (?s'\<lparr>mem := painted STRBUFLEN m, writes := writes ?s' @ inner_writes ((i + 8) div 8)\<rparr>)"
      using True b by (rule "1.IH") (use "1.prems"(1) le in simp_all)
    then show ?thesis
      unfolding d
      by (subst efficient_inner.simps) (simp add: True b inner_writes_step [OF lt] i8)
  next
    case False
    with "1.prems" have e: "i = STRBUFLEN" by simp
    then have "\<not> i div 8 < STRBUFLEN div 8" by simp
    then have "s\<lparr>mem := painted STRBUFLEN m, writes := writes s @ inner_writes (i div 8)\<rparr> = s"
      using "1.prems"(3) e by (simp add: inner_writes_done)
    then show ?thesis
      by (subst efficient_inner.simps) (simp add: False)
  qed
qed

lemma painted_0: "(m(0 := NUL)) = painted 0 m"
  by (rule ext) (simp add: painted_def)

lemma painted_idem: "painted k (painted k m) = painted k m"
  by (rule ext) (simp add: painted_def)

lemma inefficient_iteration_painted:
  "inefficient_iteration s
   = Some (s\<lparr>mem := painted STRBUFLEN (mem s), writes := writes s @ iteration_writes\<rparr>)"
proof -
  have "mem (store 0 NUL s) = painted (8 * 0) (mem s)"
    by (simp add: store_def painted_0)
  then have "inefficient_inner 0 (store 0 NUL s)
             = Some ((store 0 NUL s)\<lparr>mem := painted STRBUFLEN (mem s),
                                      writes := writes (store 0 NUL s) @ inner_writes 0\<rparr>)"
    by (intro inefficient_inner_painted) simp_all
  then show ?thesis
    by (simp add: inefficient_iteration_def iteration_writes_def store_def)
qed

lemma efficient_iteration_painted:
  "efficient_iteration s
   = Some (s\<lparr>mem := painted STRBUFLEN (mem s), writes := writes s @ iteration_writes\<rparr>)"
proof -
  have "mem (store 0 NUL s) = painted 0 (mem s)"
    by (simp add: store_def painted_0)
  then have "efficient_inner 0 (store 0 NUL s)
             = Some ((store 0 NUL s)\<lparr>mem := painted STRBUFLEN (mem s),
                                      writes := writes (store 0 NUL s) @ inner_writes (0 div 8)\<rparr>)"
    by (intro efficient_inner_painted) simp_all
  then show ?thesis
    by (simp add: efficient_iteration_def iteration_writes_def store_def)
qed

lemma after_iterations_Suc:
  "after_iterations n (s\<lparr>mem := painted STRBUFLEN (mem s), writes := writes s @ iteration_writes\<rparr>)
   = after_iterations (Suc n) s"
  by (simp add: after_iterations_def painted_idem)

lemma inefficient_outer_painted:
  "inefficient_outer j s = Some (after_iterations (10000 - j) s)"
proof (induction j s rule: inefficient_outer.induct)
  case (1 j s)
  show ?case
  proof (cases "j < 10000")
    case True
    then have n: "10000 - j = Suc (10000 - (j + 1))" by simp
    show ?thesis
      unfolding n
      by (subst inefficient_outer.simps)
         (simp only: True if_True inefficient_iteration_painted option.case
            "1.IH" [OF True inefficient_iteration_painted] after_iterations_Suc)
  next
    case False
    then show ?thesis
      by (subst inefficient_outer.simps) (simp add: after_iterations_def)
  qed
qed

lemma efficient_outer_painted:
  "efficient_outer j s = Some (after_iterations (10000 - j) s)"
proof (induction j s rule: efficient_outer.induct)
  case (1 j s)
  show ?case
  proof (cases "j < 10000")
    case True
    then have n: "10000 - j = Suc (10000 - (j + 1))" by simp
    show ?thesis
      unfolding n
      by (subst efficient_outer.simps)
         (simp only: True if_True efficient_iteration_painted option.case
            "1.IH" [OF True efficient_iteration_painted] after_iterations_Suc)
  next
    case False
    then show ?thesis
      by (subst efficient_outer.simps) (simp add: after_iterations_def)
  qed
qed


lemma concat_replicate_snoc: "concat (replicate n xs) @ xs = xs @ concat (replicate n xs)"
  by (induction n) simp_all

lemma pat_block: "map pat [8 * n..<8 * n + 8] = ''JoPaGeRi''"
proof -
  have "[8 * n..<8 * n + 8] = map (\<lambda>r. r + 8 * n) [0..<8]"
    by (simp only: map_add_upt add.commute)
  also have "map pat \<dots> = map (\<lambda>r. pat (8 * n + r)) [0..<8]"
    by (simp add: add.commute)
  also have "\<dots> = map (\<lambda>r. ''JoPaGeRi'' ! (r mod 8)) [0..<8]"
    by (simp only: pat_offset [of "8 * n"] mod_mult_self1_is_0)
  also have "\<dots> = ''JoPaGeRi''"
    by code_simp
  finally show ?thesis .
qed

lemma pat_blocks: "map pat [0..<8 * n] = concat (replicate n ''JoPaGeRi'')"
proof (induction n)
  case 0
  show ?case by simp
next
  case (Suc n)
  have e: "8 * Suc n = 8 * n + 8"
    by simp
  have "[0..<8 * Suc n] = [0..<8 * n] @ [8 * n..<8 * n + 8]"
    unfolding e by (rule upt_add_eq_append) simp
  then have "map pat [0..<8 * Suc n] = concat (replicate n ''JoPaGeRi'') @ ''JoPaGeRi''"
    by (simp only: map_append Suc.IH pat_block)
  then show ?case
    by (simp only: concat_replicate_snoc replicate_Suc concat.simps)
qed

lemma buffer_painted: "mem s = painted STRBUFLEN m \<Longrightarrow> buffer s = concat (replicate 128 ''JoPaGeRi'')"
proof -
  assume m: "mem s = painted STRBUFLEN m"
  have e: "STRBUFLEN = 8 * 128"
    by (simp add: STRBUFLEN_def)
  have "map (painted STRBUFLEN m) [0..<STRBUFLEN] = map pat [0..<STRBUFLEN]"
    by (rule map_cong) (simp_all add: painted_def)
  also have "\<dots> = concat (replicate 128 ''JoPaGeRi'')"
    unfolding e by (rule pat_blocks)
  finally show ?thesis
    unfolding buffer_def m .
qed

lemma length_concat_replicate: "length (concat (replicate n xs)) = n * length xs"
  by (induction n) simp_all

lemma pattern_fits: "take STRBUFLEN (concat (replicate 128 ''JoPaGeRi'')) = concat (replicate 128 ''JoPaGeRi'')"
  by (rule take_all) (simp only: length_concat_replicate, simp add: STRBUFLEN_def)

lemma buffer_after_iterations: "0 < n \<Longrightarrow> buffer (after_iterations n s) = concat (replicate 128 ''JoPaGeRi'')"
  by (rule buffer_painted [of _ "mem s"]) (simp add: after_iterations_def)

lemma overflow_in_inner_writes: "STRBUFLEN \<in> set (inner_writes 0)"
proof -
  have "STRBUFLEN div 8 - 1 \<in> set [0..<STRBUFLEN div 8]"
    by (simp add: STRBUFLEN_def)
  moreover have "STRBUFLEN \<in> set (body_writes (8 * (STRBUFLEN div 8 - 1)))"
    by (simp add: STRBUFLEN_def body_writes_def)
  ultimately show ?thesis
    unfolding inner_writes_def set_concat set_map by blast
qed

lemma overflow_in_iterations: "0 < n \<Longrightarrow> STRBUFLEN \<in> set (concat (replicate n iteration_writes))"
  using overflow_in_inner_writes by (cases n) (simp_all add: iteration_writes_def)

lemma inefficientStringConcat_closed: "inefficientStringConcat s = Some (after_iterations 10000 s)"
  using inefficient_outer_painted [of 0 s] by (simp add: inefficientStringConcat_def)

lemma efficientStringConcat_closed: "efficientStringConcat s = Some (after_iterations 10000 s)"
  using efficient_outer_painted [of 0 s] by (simp add: efficientStringConcat_def)

lemma buffer_iteration:
  "buffer (s\<lparr>mem := painted STRBUFLEN m, writes := ws\<rparr>) = concat (replicate 128 ''JoPaGeRi'')"
  by (rule buffer_painted [of _ m]) simp

text \<open>
  Claim C1. With the fixed tokens "Jo", "Pa", "Ge", "Ri" and the fixed iteration counts (10,000
  outer, 128 inner), \<open>inefficientStringConcat\<close> and \<open>efficientStringConcat\<close> leave
  the buffer with identical final content: both return, from whatever states \<open>sa\<close> and
  \<open>sb\<close> they are started in, and the \<open>STRBUFLEN\<close> bytes of the array are then the same.
  Started in the same state they even return the same state.
\<close>

theorem benchmarks_same_content:
  "(\<exists>s1 s2. inefficientStringConcat sa = Some s1 \<and> efficientStringConcat sb = Some s2 \<and>
            buffer s1 = buffer s2) \<and>
   inefficientStringConcat s = efficientStringConcat s"
  by (simp add: inefficientStringConcat_closed efficientStringConcat_closed buffer_after_iterations)

text \<open>
  Claim C2. After one outer iteration of either benchmark function the buffer content is the
  string "JoPaGeRi" repeated 128 times, truncated to the 1024 bytes of the buffer (the
  repeated string is exactly 1024 characters long, so the truncation removes nothing).
\<close>

theorem one_iteration_content:
  "(\<exists>s'. inefficient_iteration s = Some s' \<and>
         buffer s' = take STRBUFLEN (concat (replicate 128 ''JoPaGeRi''))) \<and>
   (\<exists>s'. efficient_iteration s = Some s' \<and>
         buffer s' = take STRBUFLEN (concat (replicate 128 ''JoPaGeRi''))) \<and>
   length (concat (replicate 128 ''JoPaGeRi'')) = STRBUFLEN"
proof -
  have "length (concat (replicate 128 ''JoPaGeRi'')) = STRBUFLEN"
    by (simp only: length_concat_replicate) (simp add: STRBUFLEN_def)
  then show ?thesis
    by (simp only: inefficient_iteration_painted efficient_iteration_painted pattern_fits
          buffer_iteration simp_thms option.inject)
qed

lemma terminator_past_buffer:
  assumes "0 < n"
  shows "mem (after_iterations n s) STRBUFLEN = NUL"
    and "STRBUFLEN \<in> set (writes (after_iterations n s))"
  using assms overflow_in_iterations [of n] by (simp_all add: after_iterations_def painted_def)

text \<open>
  Claim C3 says that every append stays within the 1024 bytes of the buffer, so that no
  store, the terminator included, touches an offset outside \<open>0 .. 1023\<close>. The code does
  not do that: the third argument of \<^verbatim>\<open>strncat\<close> bounds the characters copied, not the
  destination, so the last append of every outer iteration (\<^verbatim>\<open>"Ri"\<close> at offsets 1022 and
  1023) stores its terminator at offset \<open>STRBUFLEN\<close> = 1024, one past the array. The
  theorem runs both functions from the start-up state: each returns, offset \<open>STRBUFLEN\<close>
  is among the offsets stored to, and the byte left there is the terminator.
\<close>

theorem terminator_stored_past_buffer:
  "(\<exists>s'. inefficientStringConcat boot = Some s' \<and> STRBUFLEN \<in> set (writes s') \<and>
         mem s' STRBUFLEN = NUL) \<and>
   (\<exists>s'. efficientStringConcat boot = Some s' \<and> STRBUFLEN \<in> set (writes s') \<and>
         mem s' STRBUFLEN = NUL)"
proof -
  have "mem (after_iterations 10000 boot) STRBUFLEN = NUL"
    and "STRBUFLEN \<in> set (writes (after_iterations 10000 boot))"
    by (rule terminator_past_buffer, simp)+
  then show ?thesis
    by (simp only: inefficientStringConcat_closed efficientStringConcat_closed
          simp_thms option.inject)
qed

text \<open>
  Claim C8. For either benchmark function the buffer content after all 10,000 outer
  iterations is the content after a single outer iteration: an outer iteration first resets
  the buffer to the empty string (the byte at offset 0 is the terminator, the string at
  offset 0 has length 0) and then rebuilds the same content, so a second iteration
  (\<open>s2\<close>) and the whole loop (\<open>s'\<close>) leave the buffer as the first one (\<open>s1\<close>) did.
\<close>

theorem outer_loop_idempotent:
  "(\<exists>s1 s2 s'. inefficient_iteration s = Some s1 \<and> inefficient_iteration s1 = Some s2 \<and>
       inefficientStringConcat s = Some s' \<and> buffer s2 = buffer s1 \<and> buffer s' = buffer s1) \<and>
   (\<exists>s1 s2 s'. efficient_iteration s = Some s1 \<and> efficient_iteration s1 = Some s2 \<and>
       efficientStringConcat s = Some s' \<and> buffer s2 = buffer s1 \<and> buffer s' = buffer s1) \<and>
   mem (store 0 NUL s) 0 = NUL \<and> strlen (mem (store 0 NUL s)) 0 = Some 0"
proof -
  have "strlen (mem (store 0 NUL s)) 0 = Some 0"
    unfolding strlen_def by (subst strlen_loop.simps) (simp add: store_def)
  then show ?thesis
    by (simp add: inefficient_iteration_painted efficient_iteration_painted
          inefficientStringConcat_closed efficientStringConcat_closed
          buffer_after_iterations buffer_iteration store_def)
qed

lemma efficient_head_painted:
  "efficient_head s0 i s \<Longrightarrow>
     i mod 8 = 0 \<and> mem s = painted i (mem s0) \<and> efficient_inner i s = efficient_iteration s0"
proof (induction rule: efficient_head.induct)
  case enter
  show ?case
    by (simp add: store_def painted_0 efficient_iteration_def)
next
  case (pass i s s')
  then have b: "efficient_body i s
      = Some (s\<lparr>mem := painted (i + 8) (mem s0), writes := writes s @ body_writes i\<rparr>)"
    by (intro efficient_body_painted) simp_all
  have "efficient_inner i s = efficient_inner (i + 8) s'"
    by (subst efficient_inner.simps) (simp add: pass.hyps)
  with pass b show ?case by auto
qed

lemma writes_appended: "writes (appended k m s) = writes s @ [k, k + 1, k + 2]"
  by (simp add: appended_def)

lemma strlen_appended: "strlen (mem (appended k m s)) (k + 2) = Some 0"
  by (simp only: mem_appended strlen_painted_end)

lemma block_painted:
  assumes "k mod 8 = 0"
  shows "map (painted (k + 8) m) [k..<k + 8] = ''JoPaGeRi''"
proof -
  have k: "k = 8 * (k div 8)"
    using assms by presburger
  have "map (painted (k + 8) m) [k..<k + 8] = map pat [k..<k + 8]"
    by (rule map_cong) (simp_all add: painted_def)
  also have "\<dots> = ''JoPaGeRi''"
    by (subst (1 2) k) (rule pat_block)
  finally show ?thesis .
qed

text \<open>
  Claim C9. Invariant of the efficient benchmark's inner loop: at the head of the pass with
  offset \<open>i\<close> (a multiple of 8 below \<open>STRBUFLEN\<close>) the byte at offset \<open>i\<close> is the
  terminator, so the string at \<^verbatim>\<open>STRBUFFER+i\<close> is empty; each of the four appends finds
  an empty string at its destination (length 0: nothing earlier is scanned) and stores its
  two characters and the terminator exactly at \<open>i\<close>, \<open>i + 2\<close>, \<open>i + 4\<close>, \<open>i + 6\<close>;
  the pass leaves "JoPaGeRi" at offsets \<open>i .. i + 7\<close> and the terminator at \<open>i + 8\<close>,
  which is the invariant at the next head.
\<close>

theorem efficient_inner_invariant:
  assumes "efficient_head s0 i s" and "i < STRBUFLEN"
  shows "i mod 8 = 0 \<and> mem s i = NUL \<and> strlen (mem s) i = Some 0 \<and>
    (\<exists>s1 s2 s3 s4.
       strncat i ''Jo'' (STRBUFLEN - i) s = Some s1 \<and>
       writes s1 = writes s @ [i, i + 1, i + 2] \<and> strlen (mem s1) (i + 2) = Some 0 \<and>
       strncat (i + 2) ''Pa'' (STRBUFLEN - i) s1 = Some s2 \<and>
       writes s2 = writes s1 @ [i + 2, i + 3, i + 4] \<and> strlen (mem s2) (i + 4) = Some 0 \<and>
       strncat (i + 4) ''Ge'' (STRBUFLEN - i) s2 = Some s3 \<and>
       writes s3 = writes s2 @ [i + 4, i + 5, i + 6] \<and> strlen (mem s3) (i + 6) = Some 0 \<and>
       strncat (i + 6) ''Ri'' (STRBUFLEN - i) s3 = Some s4 \<and>
       writes s4 = writes s3 @ [i + 6, i + 7, i + 8] \<and>
       map (mem s4) [i..<i + 8] = ''JoPaGeRi'' \<and> mem s4 (i + 8) = NUL \<and>
       efficient_body i s = Some s4 \<and> efficient_head s0 (i + 8) s4)"
proof -
  let ?m = "mem s0"
  from assms(1) have i8: "i mod 8 = 0" and m: "mem s = painted i ?m"
    using efficient_head_painted by blast+
  let ?s1 = "appended i ?m s"
  let ?s2 = "appended (i + 2) ?m ?s1"
  let ?s3 = "appended (i + 4) ?m ?s2"
  let ?s4 = "appended (i + 6) ?m ?s3"
  note ap = efficient_appends [OF m i8 assms(2)]
  have nul: "mem s i = NUL"
    by (simp add: m painted_def)
  have empty: "strlen (mem s) i = Some 0"
    by (simp only: m strlen_painted_end)
  have w1: "writes ?s1 = writes s @ [i, i + 1, i + 2]"
    by (rule writes_appended)
  have w2: "writes ?s2 = writes ?s1 @ [i + 2, i + 3, i + 4]"
    by (simp only: writes_appended) simp
  have w3: "writes ?s3 = writes ?s2 @ [i + 4, i + 5, i + 6]"
    by (simp only: writes_appended) simp
  have w4: "writes ?s4 = writes ?s3 @ [i + 6, i + 7, i + 8]"
    by (simp only: writes_appended) simp
  have e1: "strlen (mem ?s1) (i + 2) = Some 0"
    by (rule strlen_appended)
  have e2: "strlen (mem ?s2) (i + 4) = Some 0"
    using strlen_appended [of "i + 2" ?m ?s1] by (simp only: add.assoc) simp
  have e3: "strlen (mem ?s3) (i + 6) = Some 0"
    using strlen_appended [of "i + 4" ?m ?s2] by (simp only: add.assoc) simp
  have m4: "mem ?s4 = painted (i + 8) ?m"
    using mem_appended [of "i + 6" ?m ?s3] by (simp only: add.assoc) simp
  have blk: "map (mem ?s4) [i..<i + 8] = ''JoPaGeRi''"
    unfolding m4 using i8 by (rule block_painted)
  have nul4: "mem ?s4 (i + 8) = NUL"
    unfolding m4 by (simp add: painted_def)
  have body: "efficient_body i s = Some ?s4"
    unfolding efficient_body_def by (simp only: ap Option.bind.simps)
  have head: "efficient_head s0 (i + 8) ?s4"
    using assms body by (rule efficient_head.pass)
  have "strncat i ''Jo'' (STRBUFLEN - i) s = Some ?s1 \<and>
       writes ?s1 = writes s @ [i, i + 1, i + 2] \<and> strlen (mem ?s1) (i + 2) = Some 0 \<and>
       strncat (i + 2) ''Pa'' (STRBUFLEN - i) ?s1 = Some ?s2 \<and>
       writes ?s2 = writes ?s1 @ [i + 2, i + 3, i + 4] \<and> strlen (mem ?s2) (i + 4) = Some 0 \<and>
       strncat (i + 4) ''Ge'' (STRBUFLEN - i) ?s2 = Some ?s3 \<and>
       writes ?s3 = writes ?s2 @ [i + 4, i + 5, i + 6] \<and> strlen (mem ?s3) (i + 6) = Some 0 \<and>
       strncat (i + 6) ''Ri'' (STRBUFLEN - i) ?s3 = Some ?s4 \<and>
       writes ?s4 = writes ?s3 @ [i + 6, i + 7, i + 8] \<and>
       map (mem ?s4) [i..<i + 8] = ''JoPaGeRi'' \<and> mem ?s4 (i + 8) = NUL \<and>
       efficient_body i s = Some ?s4 \<and> efficient_head s0 (i + 8) ?s4"
    using ap w1 w2 w3 w4 e1 e2 e3 blk nul4 body head by (intro conjI)
  then have "\<exists>s1 s2 s3 s4.
       strncat i ''Jo'' (STRBUFLEN - i) s = Some s1 \<and>
       writes s1 = writes s @ [i, i + 1, i + 2] \<and> strlen (mem s1) (i + 2) = Some 0 \<and>
       strncat (i + 2) ''Pa'' (STRBUFLEN - i) s1 = Some s2 \<and>
       writes s2 = writes s1 @ [i + 2, i + 3, i + 4] \<and> strlen (mem s2) (i + 4) = Some 0 \<and>
       strncat (i + 4) ''Ge'' (STRBUFLEN - i) s2 = Some s3 \<and>
       writes s3 = writes s2 @ [i + 4, i + 5, i + 6] \<and> strlen (mem s3) (i + 6) = Some 0 \<and>
       strncat (i + 6) ''Ri'' (STRBUFLEN - i) s3 = Some s4 \<and>
       writes s4 = writes s3 @ [i + 6, i + 7, i + 8] \<and>
       map (mem s4) [i..<i + 8] = ''JoPaGeRi'' \<and> mem s4 (i + 8) = NUL \<and>
       efficient_body i s = Some s4 \<and> efficient_head s0 (i + 8) s4"
    by (intro exI)
  with i8 nul empty show ?thesis
    by (intro conjI)
qed

theorem efficient_inner_invariant_witness:
  "efficient_head boot 0 (store 0 NUL boot) \<and> 0 < STRBUFLEN \<and>
   mem (store 0 NUL boot) 0 = NUL \<and> strlen (mem (store 0 NUL boot)) 0 = Some 0 \<and>
   (\<exists>s4. efficient_body 0 (store 0 NUL boot) = Some s4 \<and>
         map (mem s4) [0..<0 + 8] = ''JoPaGeRi'' \<and> mem s4 (0 + 8) = NUL)"
proof -
  have h: "efficient_head boot 0 (store 0 NUL boot)"
    by (rule efficient_head.enter)
  have l: "0 < STRBUFLEN"
    by (simp add: STRBUFLEN_def)
  note t = efficient_inner_invariant [OF h l]
  from t have a: "mem (store 0 NUL boot) 0 = NUL"
    by (elim conjE)
  from t have b: "strlen (mem (store 0 NUL boot)) 0 = Some 0"
    by (elim conjE)
  from t obtain s4 where "efficient_body 0 (store 0 NUL boot) = Some s4"
    and "map (mem s4) [0..<0 + 8] = ''JoPaGeRi''" and "mem s4 (0 + 8) = NUL"
    by (elim conjE exE)
  then have c: "\<exists>s4. efficient_body 0 (store 0 NUL boot) = Some s4 \<and>
         map (mem s4) [0..<0 + 8] = ''JoPaGeRi'' \<and> mem s4 (0 + 8) = NUL"
    by (intro exI conjI)
  from h l a b c show ?thesis
    by (intro conjI)
qed


section \<open>Properties of the runner\<close>

lemma sdiv_million:
  fixes k :: int
  shows "k sdiv 1000000 = (if 0 \<le> k then k div 1000000 else - ((- k) div 1000000))"
  by (auto simp: signed_divide_int_def sgn_if)

lemma sdiv_million_bounds:
  fixes k :: int
  assumes "- (2 ^ 63) \<le> k" "k < 2 ^ 63"
  shows "- (2 ^ 63) \<le> k sdiv 1000000" "k sdiv 1000000 < 2 ^ 63"
    and "- (2 ^ 63) \<le> k sdiv 1000000 * 1000000" "k sdiv 1000000 * 1000000 < 2 ^ 63"
    and "- (2 ^ 63) \<le> k - k sdiv 1000000 * 1000000" "k - k sdiv 1000000 * 1000000 < 2 ^ 63"
  using assms unfolding sdiv_million by (simp_all split: if_splits) linarith+


lemma sint_of_int_small:
  "\<lbrakk>- (2 ^ 63) \<le> k; k < 2 ^ 63\<rbrakk> \<Longrightarrow> sint (word_of_int k :: 64 word) = k"
  by (simp add: sint_sbintrunc' signed_take_bit_int_eq_self)

lemma sint_mult_small:
  fixes a b :: "64 word"
  assumes "- (2 ^ 63) \<le> sint a * sint b" "sint a * sint b < 2 ^ 63"
  shows "sint (a * b) = sint a * sint b"
  using assms by (simp add: sint_word_ariths signed_take_bit_int_eq_self)

lemma sint_range: "- (2 ^ 63) \<le> sint (x :: 64 word)" "sint (x :: 64 word) < 2 ^ 63"
  using sint_ge [of x] sint_lt [of x] by simp_all

lemma sint_c_div_million: "sint (c_div x 1000000) = sint x sdiv 1000000"
  unfolding c_div_def
  using sdiv_million_bounds(1,2) [OF sint_range [of x]]
  by (simp add: sint_of_int_small)

lemma sint_remainder_million:
  "sint (x - c_div x 1000000 * 1000000) = sint x - sint x sdiv 1000000 * 1000000"
proof -
  note b = sdiv_million_bounds [OF sint_range [of x]]
  have m: "sint (c_div x 1000000 * 1000000) = sint x sdiv 1000000 * 1000000"
    using b(3,4) by (subst sint_mult_small) (simp_all add: sint_c_div_million)
  show ?thesis
    using b(5,6) by (subst sint_sub_small) (simp_all add: m)
qed

lemma operator_lshift_line: "stdout (operator_lshift d w) = stdout w @ duration_line d"
  by (simp add: operator_lshift_def duration_line_def show_long_def Let_def
        sint_c_div_million sint_remainder_million)

lemma operator_lshift_rest:
  "mem (operator_lshift d w) = mem w" "writes (operator_lshift d w) = writes w"
  "clock (operator_lshift d w) = clock w" "ticks (operator_lshift d w) = ticks w"
  by (simp_all add: operator_lshift_def Let_def)

lemma digit_set: "d < 10 \<Longrightarrow> digit d \<in> set ''0123456789''"
  unfolding digit_def by (rule nth_mem) simp

lemma show_nat_digits: "set (show_nat n) \<subseteq> set ''0123456789''"
proof (induction n rule: show_nat.induct)
  case (1 n)
  show ?case
  proof (cases "n < 10")
    case True
    then show ?thesis
      using digit_set [of n] by (subst show_nat.simps) simp
  next
    case False
    have "digit (n mod 10) \<in> set ''0123456789''"
      by (rule digit_set) simp
    with False "1.IH" show ?thesis
      by (subst show_nat.simps) simp
  qed
qed

lemma show_int_no_newline: "CHR 0x0A \<notin> set (show_int k)"
proof -
  have "CHR 0x0A \<notin> set ''0123456789''" by simp
  then have "CHR 0x0A \<notin> set (show_nat n)" for n
    using show_nat_digits [of n] by blast
  then show ?thesis by (simp add: show_int_def)
qed

lemma duration_line_no_newline: "CHR 0x0A \<notin> set (duration_line d)"
  by (simp add: duration_line_def Let_def show_int_no_newline)

lemma timeOperation_inefficient:
  "timeOperation inefficientStringConcat w
   = Some (clock w (ticks w), clock w (Suc (ticks w)),
           diff (clock w (ticks w)) (clock w (Suc (ticks w))),
           (after_iterations 10000 w)\<lparr>ticks := Suc (Suc (ticks w))\<rparr>)"
  by (simp add: timeOperation_def getTime_def inefficientStringConcat_closed after_iterations_def)

lemma timeOperation_efficient:
  "timeOperation efficientStringConcat w
   = Some (clock w (ticks w), clock w (Suc (ticks w)),
           diff (clock w (ticks w)) (clock w (Suc (ticks w))),
           (after_iterations 10000 w)\<lparr>ticks := Suc (Suc (ticks w))\<rparr>)"
  by (simp add: timeOperation_def getTime_def efficientStringConcat_closed after_iterations_def)

lemma after_iterations_rest:
  "clock (after_iterations n w) = clock w" "ticks (after_iterations n w) = ticks w"
  "stdout (after_iterations n w) = stdout w"
  by (simp_all add: after_iterations_def)

lemma endl_fields:
  "stdout (endl w) = stdout w @ [CHR 0x0A]" "clock (endl w) = clock w" "ticks (endl w) = ticks w"
  by (simp_all add: endl_def)

lemma main_run:
  "\<exists>start1 end1 d1 w1 start2 end2 d2 w2 w'.
     timeOperation inefficientStringConcat w = Some (start1, end1, d1, w1) \<and>
     timeOperation efficientStringConcat (endl (operator_lshift d1 w1))
       = Some (start2, end2, d2, w2) \<and>
     main argc argv w = Some (0, w') \<and>
     stdout w' = stdout w @ duration_line d1 @ [CHR 0x0A] @ duration_line d2 @ [CHR 0x0A] \<and>
     CHR 0x0A \<notin> set (duration_line d1) \<and> CHR 0x0A \<notin> set (duration_line d2) \<and>
     d1 = diff (clock w (ticks w)) (clock w (ticks w + 1)) \<and>
     d2 = diff (clock w (ticks w + 2)) (clock w (ticks w + 3))"
proof -
  define d1 where "d1 = diff (clock w (ticks w)) (clock w (Suc (ticks w)))"
  define w1 where "w1 = (after_iterations 10000 w)\<lparr>ticks := Suc (Suc (ticks w))\<rparr>"
  define v where "v = endl (operator_lshift d1 w1)"
  define d2 where "d2 = diff (clock v (ticks v)) (clock v (Suc (ticks v)))"
  define w2 where "w2 = (after_iterations 10000 v)\<lparr>ticks := Suc (Suc (ticks v))\<rparr>"
  define w' where "w' = endl (operator_lshift d2 w2)"
  have t1: "timeOperation inefficientStringConcat w
            = Some (clock w (ticks w), clock w (Suc (ticks w)), d1, w1)"
    unfolding d1_def w1_def by (rule timeOperation_inefficient)
  have t2: "timeOperation efficientStringConcat (endl (operator_lshift d1 w1))
            = Some (clock v (ticks v), clock v (Suc (ticks v)), d2, w2)"
    unfolding d2_def w2_def v_def [symmetric] by (rule timeOperation_efficient)
  have m: "main argc argv w = Some (0, w')"
    unfolding main_def by (simp add: argument_check_def t1 t2 w'_def Let_def)
  have cv: "clock v = clock w" and tv: "ticks v = ticks w + 2"
    by (simp_all add: v_def w1_def endl_fields operator_lshift_rest after_iterations_rest)
  have sv: "stdout v = stdout w @ duration_line d1 @ [CHR 0x0A]"
    by (simp add: v_def w1_def endl_fields operator_lshift_line after_iterations_rest)
  have out: "stdout w' = stdout w @ duration_line d1 @ [CHR 0x0A] @ duration_line d2 @ [CHR 0x0A]"
    by (simp add: w'_def w2_def endl_fields operator_lshift_line after_iterations_rest sv)
  have e1: "d1 = diff (clock w (ticks w)) (clock w (ticks w + 1))"
    by (simp add: d1_def)
  have e2: "d2 = diff (clock w (ticks w + 2)) (clock w (ticks w + 3))"
    by (simp add: d2_def cv tv eval_nat_numeral)
  have n1: "CHR 0x0A \<notin> set (duration_line d1)" and n2: "CHR 0x0A \<notin> set (duration_line d2)"
    by (rule duration_line_no_newline)+
  from t1 t2 m out n1 n2 e1 e2 show ?thesis
    by blast
qed

text \<open>
  Claim C6. The program writes exactly two lines to standard output, each of the form
  \<^verbatim>\<open><seconds>s <milliseconds>ms <remainder-nanoseconds>ns\<close> with milliseconds
  \<open>= tv_nsec / 1,000,000\<close> and remainder \<open>= tv_nsec - milliseconds * 1,000,000\<close>; the first
  line is the duration \<open>d1\<close> that \<open>timeOperation\<close> measures for the inefficient benchmark
  (between the first two clock readings), the second the duration \<open>d2\<close> it measures for the
  efficient benchmark (between the next two). Neither line contains a newline of its own.
  The calls, the two output statements and the format are the source's; for \<open>argc > 1\<close> the
  run first passes through \<open>argument_check\<close>, the block modelled from the specification,
  which prints nothing.
\<close>

theorem main_prints_two_lines:
  "\<exists>start1 end1 d1 w1 start2 end2 d2 w2 w'.
     timeOperation inefficientStringConcat w = Some (start1, end1, d1, w1) \<and>
     timeOperation efficientStringConcat (endl (operator_lshift d1 w1))
       = Some (start2, end2, d2, w2) \<and>
     main argc argv w = Some (0, w') \<and>
     stdout w' = stdout w @ duration_line d1 @ [CHR 0x0A] @ duration_line d2 @ [CHR 0x0A] \<and>
     CHR 0x0A \<notin> set (duration_line d1) \<and> CHR 0x0A \<notin> set (duration_line d2) \<and>
     d1 = diff (clock w (ticks w)) (clock w (ticks w + 1)) \<and>
     d2 = diff (clock w (ticks w + 2)) (clock w (ticks w + 3))"
  by (rule main_run)

text \<open>
  Claim C7. For every command line the arguments change nothing and the exit code is 0:
  \<open>main\<close> returns, with exit code 0, and its result is the same for any two values of
  \<open>argc\<close> and \<open>argv\<close>. The only place of \<open>main\<close> where the arguments could matter is
  the block under \<^verbatim>\<open>if (argc > 1)\<close>, which the source leaves unfinished; the claim is
  settled against \<open>argument_check\<close>, that block as the specification describes it. The
  return of both benchmarks and the exit code come from the source.
\<close>

theorem main_ignores_arguments:
  "main argc argv w = main argc' argv' w \<and> (\<exists>w'. main argc argv w = Some (0, w'))"
proof -
  have "\<exists>w'. main argc argv w = Some (0, w')"
    using main_run [of w argc argv] by blast
  moreover have "main argc argv w = main argc' argv' w"
    by (simp add: main_def argument_check_def)
  ultimately show ?thesis by simp
qed

end
